theory Spec2Isabelle
  imports Complex_Main
begin

section \<open>Strings\<close>

text \<open>
  A Python \<open>str\<close> is modelled as a \<^typ>\<open>string\<close>; a \<^typ>\<open>char\<close> stands for a code
  point below 256. \<open>str.strip()\<close> without argument removes the characters for which
  \<open>str.isspace\<close> holds from both ends; below 256 these are the code points
  9 to 13, 28 to 32, 133 and 160.
\<close>

definition whitespace :: "char list" where
  "whitespace = [CHR 0x09, CHR 0x0A, CHR 0x0B, CHR 0x0C, CHR 0x0D,
                 CHR 0x1C, CHR 0x1D, CHR 0x1E, CHR 0x1F, CHR 0x20, CHR 0x85, CHR 0xA0]"

definition isspace :: "char \<Rightarrow> bool" where
  "isspace c = (c \<in> set whitespace)"

definition strip :: "string \<Rightarrow> string" where
  "strip s = rev (dropWhile isspace (rev (dropWhile isspace s)))"

text \<open>\<open>s.split(",")\<close>: the pieces between the commas; never an empty list.\<close>

fun split_comma :: "string \<Rightarrow> string list" where
  "split_comma [] = [[]]"
| "split_comma (c # cs) =
     (if c = CHR '','' then [] # split_comma cs
      else (case split_comma cs of
              [] \<Rightarrow> [[c]]
            | w # ws \<Rightarrow> (c # w) # ws))"

section \<open>Model list builder\<close>

text \<open>
  \<open>_parse_model_list(primary, fallback_raw)\<close>. The argument \<open>fallback_raw\<close> is
  \<open>str | None\<close>; \<open>if fallback_raw\<close> is false for \<open>None\<close> and for the empty string.
  The generator expression of the \<open>extend\<close> call is \<open>fallback_entries\<close>; the loop that
  removes duplicates is \<open>dedupe_loop\<close>, with the set \<open>seen\<close> and the list \<open>ordered\<close>
  as accumulators.
\<close>

definition fallback_entries :: "string \<Rightarrow> string list" where
  "fallback_entries fallback_raw =
     map strip (filter (\<lambda>model. strip model \<noteq> []) (split_comma fallback_raw))"

fun dedupe_loop :: "string list \<Rightarrow> string set \<Rightarrow> string list \<Rightarrow> string list" where
  "dedupe_loop [] seen ordered = ordered"
| "dedupe_loop (model # models) seen ordered =
     (if model \<notin> seen then dedupe_loop models (insert model seen) (ordered @ [model])
      else dedupe_loop models seen ordered)"

definition parse_model_list :: "string \<Rightarrow> string option \<Rightarrow> string list" where
  "parse_model_list primary fallback_raw =
     (let models = [primary] @
            (case fallback_raw of
               None \<Rightarrow> []
             | Some raw \<Rightarrow> if raw \<noteq> [] then fallback_entries raw else [])
      in dedupe_loop models {} [])"

section \<open>Values read from a JSON body\<close>

text \<open>
  \<open>response.json()\<close> yields \<open>None\<close>, a \<open>bool\<close>, an \<open>int\<close>, a \<open>float\<close>, a \<open>str\<close>,
  a \<open>list\<close> or a \<open>dict\<close> with string keys. A \<open>dict\<close> is an association list in
  which the first binding of a key is the value of that key. \<open>truthy\<close> is Python's
  truth value testing of these values.
\<close>

datatype pyfloat = Finite rat | PosInf | NegInf | NaN

datatype json =
    JNull
  | JBool bool
  | JInt int
  | JFloat pyfloat
  | JStr string
  | JArr "json list"
  | JObj "(string \<times> json) list"

fun truthy :: "json \<Rightarrow> bool" where
  "truthy JNull = False"
| "truthy (JBool b) = b"
| "truthy (JInt i) = (i \<noteq> 0)"
| "truthy (JFloat f) = (f \<noteq> Finite 0)"
| "truthy (JStr s) = (s \<noteq> [])"
| "truthy (JArr xs) = (xs \<noteq> [])"
| "truthy (JObj kvs) = (kvs \<noteq> [])"

text \<open>\<open>d.get(key)\<close> on a \<open>dict\<close>: the value, or \<open>None\<close> when the key is absent.\<close>

definition dict_get :: "(string \<times> json) list \<Rightarrow> string \<Rightarrow> json" where
  "dict_get d key = (case map_of d key of None \<Rightarrow> JNull | Some v \<Rightarrow> v)"

text \<open>\<open>a or b\<close>.\<close>

definition py_or :: "json \<Rightarrow> json \<Rightarrow> json" where
  "py_or a b = (if truthy a then a else b)"

section \<open>Responses and exceptions\<close>

text \<open>
  A \<open>requests.Response\<close> is reduced to what the code reads: its status code and the
  result of \<open>response.json()\<close>, which is \<open>None\<close> here when the body is not JSON and the
  method raises \<open>JSONDecodeError\<close>.
\<close>

record response =
  status_code :: int
  json_body :: "json option"

text \<open>
  The exceptions of the run. \<open>HTTPError\<close> is \<open>requests.exceptions.HTTPError\<close> with its
  attribute \<open>response\<close>, which may be \<open>None\<close>; every other constructor is an exception
  class that derives from \<open>Exception\<close> and not from \<open>HTTPError\<close>.
\<close>

datatype exn =
    HTTPError "response option"
  | Timeout
  | ConnectionError
  | JSONDecodeError
  | RuntimeError json
  | ValueError string
  | AttributeError
  | TypeError
  | KeyError
  | IndexError
  | OtherException string

text \<open>
  Three methods of the library \<open>requests\<close> (version 2, \<open>models.py\<close>) decide what the
  code does with a response:
  \<^item> \<open>Response.raise_for_status\<close> raises \<open>HTTPError(msg, response=self)\<close> when
    \<open>400 <= status_code < 600\<close> and returns otherwise;
  \<^item> the property \<open>Response.ok\<close> calls \<open>raise_for_status\<close> and is \<open>False\<close> when it
    raises, \<open>True\<close> otherwise;
  \<^item> \<open>Response.__bool__\<close> returns \<open>self.ok\<close>, so this is the truth value of a
    response object in a condition such as \<open>x if err.response else y\<close>.
\<close>

definition raise_for_status :: "response \<Rightarrow> exn + unit" where
  "raise_for_status r =
     (if 400 \<le> status_code r \<and> status_code r < 600 then Inl (HTTPError (Some r))
      else Inr ())"

definition ok :: "response \<Rightarrow> bool" where
  "ok r = (case raise_for_status r of Inl _ \<Rightarrow> False | Inr _ \<Rightarrow> True)"

definition response_bool :: "response \<Rightarrow> bool" where
  "response_bool r = ok r"

section \<open>Inference caller\<close>

text \<open>
  The operations the parsing applies to a value, with the exception each raises on a
  value of the wrong type: \<open>x[0]\<close>, \<open>x.get(key)\<close> and \<open>x.strip()\<close>.
\<close>

fun subscript0 :: "json \<Rightarrow> exn + json" where
  "subscript0 (JArr (x # xs)) = Inr x"
| "subscript0 (JArr []) = Inl IndexError"
| "subscript0 (JStr (c # cs)) = Inr (JStr [c])"
| "subscript0 (JStr []) = Inl IndexError"
| "subscript0 (JObj kvs) = Inl KeyError"
| "subscript0 _ = Inl TypeError"

fun py_get :: "json \<Rightarrow> string \<Rightarrow> exn + json" where
  "py_get (JObj d) key = Inr (dict_get d key)"
| "py_get _ key = Inl AttributeError"

fun py_strip :: "json \<Rightarrow> exn + string" where
  "py_strip (JStr s) = Inr (strip s)"
| "py_strip _ = Inl AttributeError"

text \<open>
  Lines 182 to 197 of \<open>_generate_affirmation\<close>, applied to \<open>result = response.json()\<close>:
  the check of the \<open>error\<close> field, the extraction of the text, the check that the text
  is not empty.
\<close>

definition nonempty_text :: "string \<Rightarrow> exn + string" where
  "nonempty_text text =
     (if text = [] then Inl (ValueError ''Empty response from Hugging Face'')
      else Inr text)"

definition choices_text :: "json \<Rightarrow> exn + string" where
  "choices_text choices =
     (case subscript0 choices of
        Inl e \<Rightarrow> Inl e
      | Inr first \<Rightarrow>
          (case py_get first ''message'' of
             Inl e \<Rightarrow> Inl e
           | Inr m \<Rightarrow>
               (let message = py_or m (JObj []) in
                case py_get message ''content'' of
                  Inl e \<Rightarrow> Inl e
                | Inr content \<Rightarrow> py_strip (py_or content (JStr [])))))"

definition extract_text :: "json \<Rightarrow> exn + string" where
  "extract_text result =
     (case result of
        JObj d \<Rightarrow>
          if truthy (dict_get d ''error'') then Inl (RuntimeError (dict_get d ''error''))
          else
            (let choices = py_or (dict_get d ''choices'') (JArr []) in
             if truthy choices then
               (case choices_text choices of
                  Inl e \<Rightarrow> Inl e
                | Inr text \<Rightarrow> nonempty_text text)
             else nonempty_text [])
      | _ \<Rightarrow> nonempty_text [])"

text \<open>
  What \<open>requests.post\<close> does on one request: it raises, or it returns a response.
  \<open>call_model\<close> is the body of the \<open>try\<close> block (lines 160 to 197) on that outcome:
  \<open>Inr text\<close> is \<open>return text\<close>, \<open>Inl e\<close> is the exception that reaches the handlers.
\<close>

datatype outcome = Raises exn | Responds response

definition call_model :: "outcome \<Rightarrow> exn + string" where
  "call_model out =
     (case out of
        Raises e \<Rightarrow> Inl e
      | Responds r \<Rightarrow>
          (case raise_for_status r of
             Inl e \<Rightarrow> Inl e
           | Inr _ \<Rightarrow>
               (case json_body r of
                  None \<Rightarrow> Inl JSONDecodeError
                | Some result \<Rightarrow> extract_text result)))"

section \<open>Retry orchestrator\<close>

text \<open>
  The effects of a run are the requests it sends and the pauses it makes, recorded in
  order in \<open>trace\<close>: \<open>Post model attempt\<close> is the call of \<open>requests.post\<close> for that model
  in the iteration \<open>attempt\<close>, \<open>Sleep n\<close> is \<open>time.sleep(n)\<close>. The remote endpoint is a
  function from the trace so far and the model requested to the outcome of the request,
  so an answer may depend on everything that happened before it. The state of the loops
  is the variable \<open>last_error\<close> and the trace.
\<close>

datatype event = Post string nat | Sleep nat

record state =
  last_error :: "exn option"
  trace :: "event list"

type_synonym server = "event list \<Rightarrow> string \<Rightarrow> outcome"

definition backoff_delays :: "nat list" where
  "backoff_delays = [2, 4, 8]"

text \<open>How one iteration of the inner loop ends.\<close>

datatype control = Return string | Raise exn | Break | Continue

text \<open>
  The last five lines of both handlers (lines 211 to 216 and 221 to 226) are the same:
  sleep and \<open>continue\<close> when \<open>attempt < 2\<close>, \<open>break\<close> otherwise.
\<close>

definition backoff_or_break :: "nat \<Rightarrow> state \<Rightarrow> control \<times> state" where
  "backoff_or_break attempt st =
     (if attempt < 2
      then (Continue, st\<lparr>trace := trace st @ [Sleep (backoff_delays ! attempt)]\<rparr>)
      else (Break, st))"

text \<open>
  The two \<open>except\<close> clauses (lines 199 to 226). In the first,
  \<open>status = err.response.status_code if err.response else None\<close> tests the truth
  value of the response object.
\<close>

definition handle_failure :: "exn \<Rightarrow> nat \<Rightarrow> state \<Rightarrow> control \<times> state" where
  "handle_failure err attempt st =
     (let st1 = st\<lparr>last_error := Some err\<rparr> in
      case err of
        HTTPError resp \<Rightarrow>
          (let status =
                 (case resp of
                    None \<Rightarrow> None
                  | Some r \<Rightarrow> if response_bool r then Some (status_code r) else None)
           in if status \<in> {Some 401, Some 403} then (Raise err, st1)
              else if status \<in> {Some 404, Some 410} then (Break, st1)
              else backoff_or_break attempt st1)
      | _ \<Rightarrow> backoff_or_break attempt st1)"

definition attempt_body :: "server \<Rightarrow> string \<Rightarrow> nat \<Rightarrow> state \<Rightarrow> control \<times> state" where
  "attempt_body srv model attempt st =
     (let st1 = st\<lparr>trace := trace st @ [Post model attempt]\<rparr> in
      case call_model (srv (trace st) model) of
        Inr text \<Rightarrow> (Return text, st1)
      | Inl err \<Rightarrow> handle_failure err attempt st1)"

text \<open>
  \<open>for attempt in range(3)\<close> over the list of the remaining attempt indices. The
  result \<open>Continue\<close> means that the loop was left by \<open>break\<close> or ran out of indices.
\<close>

fun for_attempts :: "server \<Rightarrow> string \<Rightarrow> nat list \<Rightarrow> state \<Rightarrow> control \<times> state" where
  "for_attempts srv model [] st = (Continue, st)"
| "for_attempts srv model (attempt # rest) st =
     (case attempt_body srv model attempt st of
        (Continue, st') \<Rightarrow> for_attempts srv model rest st'
      | (Break, st') \<Rightarrow> (Continue, st')
      | (Return text, st') \<Rightarrow> (Return text, st')
      | (Raise e, st') \<Rightarrow> (Raise e, st'))"

fun for_models :: "server \<Rightarrow> string list \<Rightarrow> state \<Rightarrow> control \<times> state" where
  "for_models srv [] st = (Continue, st)"
| "for_models srv (model # rest) st =
     (case for_attempts srv model [0..<3] st of
        (Continue, st') \<Rightarrow> for_models srv rest st'
      | (Break, st') \<Rightarrow> for_models srv rest st'
      | (Return text, st') \<Rightarrow> (Return text, st')
      | (Raise e, st') \<Rightarrow> (Raise e, st'))"

text \<open>
  Lines 150 to 230: the two loops from the initial state, then the final \<open>raise\<close>. An
  exception object is always true, so \<open>last_error or RuntimeError(...)\<close> is
  \<open>last_error\<close> unless it is \<open>None\<close>.
\<close>

definition initial :: state where
  "initial = \<lparr>last_error = None, trace = []\<rparr>"

definition orchestrate :: "server \<Rightarrow> string list \<Rightarrow> (exn + string) \<times> state" where
  "orchestrate srv models_to_try =
     (case for_models srv models_to_try initial of
        (Return text, st) \<Rightarrow> (Inr text, st)
      | (Raise e, st) \<Rightarrow> (Inl e, st)
      | (_, st) \<Rightarrow>
          (Inl (case last_error st of
                  Some e \<Rightarrow> e
                | None \<Rightarrow> RuntimeError (JStr ''AI request failed after all models attempted'')),
           st))"

text \<open>
  \<open>_generate_affirmation\<close> as a whole. The process environment is a map from names to
  values; \<open>os.getenv(name, dflt)\<close> is \<open>getenv\<close>.
\<close>

definition getenv :: "(string \<rightharpoonup> string) \<Rightarrow> string \<Rightarrow> string \<Rightarrow> string" where
  "getenv env name dflt = (case env name of None \<Rightarrow> dflt | Some v \<Rightarrow> v)"

definition generate_affirmation :: "(string \<rightharpoonup> string) \<Rightarrow> server \<Rightarrow> (exn + string) \<times> state" where
  "generate_affirmation env srv =
     (if env ''HUGGING_FACE_API_KEY'' = None \<or> env ''HUGGING_FACE_API_KEY'' = Some []
      then (Inl (ValueError ''HUGGING_FACE_API_KEY not set in environment''), initial)
      else
        (let primary_model = getenv env ''HUGGING_FACE_MODEL'' ''meta-llama/Meta-Llama-3-8B-Instruct'';
             fallback_raw = getenv env ''HUGGING_FACE_FALLBACK_MODELS'' ''Qwen/Qwen2.5-7B-Instruct'';
             models_to_try = parse_model_list primary_model (Some fallback_raw)
         in orchestrate srv models_to_try))"

section \<open>Notions of the specification\<close>

text \<open>
  The specification's description of the candidate list, as functions of their own.
  \<open>first_occurrences\<close>: the entries in their given order, where an entry equal to one
  already present is dropped, so that the first occurrence wins. \<open>entries_of\<close>: the
  fallback string, if present, is split on commas, each entry trimmed, empty entries
  discarded. \<open>join_comma\<close> puts pieces together again with a comma between two of them;
  it states what splitting on commas means.
\<close>

fun first_occurrences :: "'a list \<Rightarrow> 'a list" where
  "first_occurrences [] = []"
| "first_occurrences (x # xs) = x # first_occurrences (filter (\<lambda>y. y \<noteq> x) xs)"

definition entries_of :: "string option \<Rightarrow> string list" where
  "entries_of fallback_raw =
     (case fallback_raw of
        None \<Rightarrow> []
      | Some raw \<Rightarrow> filter (\<lambda>e. e \<noteq> []) (map strip (split_comma raw)))"

fun join_comma :: "string list \<Rightarrow> string" where
  "join_comma [] = []"
| "join_comma [w] = w"
| "join_comma (w # v # ws) = w @ CHR '','' # join_comma (v # ws)"

text \<open>
  The field \<open>choices[0].message.content\<close> of a parsed body, when the body is a
  \<open>dict\<close> whose \<open>choices\<close> is a list that starts with a \<open>dict\<close> whose \<open>message\<close> is a
  \<open>dict\<close> with the key \<open>content\<close>; \<open>None\<close> when that path does not exist.
\<close>

fun content_field :: "json \<Rightarrow> json option" where
  "content_field (JObj d) =
     (case dict_get d ''choices'' of
        JArr (JObj first # _) \<Rightarrow>
          (case dict_get first ''message'' of
             JObj message \<Rightarrow> map_of message ''content''
           | _ \<Rightarrow> None)
      | _ \<Rightarrow> None)"
| "content_field _ = None"


text \<open>
  The HTTP status that a failure carries, and the failures that the specification
  calls transient: all but an HTTP error that carries status 401, 403, 404 or 410.
\<close>

fun carried_status :: "exn \<Rightarrow> int option" where
  "carried_status (HTTPError (Some r)) = Some (status_code r)"
| "carried_status _ = None"

definition transient :: "exn \<Rightarrow> bool" where
  "transient e = (carried_status e \<notin> {Some 401, Some 403, Some 404, Some 410})"

text \<open>The number of requests that a trace records for a model.\<close>

fun is_post_to :: "string \<Rightarrow> event \<Rightarrow> bool" where
  "is_post_to m (Post m' k) = (m' = m)"
| "is_post_to m (Sleep n) = False"

definition calls_to :: "string \<Rightarrow> event list \<Rightarrow> nat" where
  "calls_to m tr = length (filter (is_post_to m) tr)"

text \<open>
  Two predicates for the proofs about the loops. \<open>all_failed srv h tr\<close>: every request
  that the trace \<open>tr\<close> records after the history \<open>h\<close> was answered by a failure.
  \<open>verdict srv c st h m\<close>: the way \<open>c\<close> in which a loop ended agrees with the answer to
  the request for \<open>m\<close> after the history \<open>h\<close>, and a failure is the one in \<open>last_error\<close>.
\<close>

fun all_failed :: "server \<Rightarrow> event list \<Rightarrow> event list \<Rightarrow> bool" where
  "all_failed srv h [] = True"
| "all_failed srv h (Post m k # rest) =
     (isl (call_model (srv h m)) \<and> all_failed srv (h @ [Post m k]) rest)"
| "all_failed srv h (Sleep n # rest) = all_failed srv (h @ [Sleep n]) rest"

definition verdict :: "server \<Rightarrow> control \<Rightarrow> state \<Rightarrow> event list \<Rightarrow> string \<Rightarrow> bool" where
  "verdict srv c st h m =
     (case c of
        Return t \<Rightarrow> call_model (srv h m) = Inr t
      | Raise e \<Rightarrow> call_model (srv h m) = Inl e \<and> last_error st = Some e
      | Continue \<Rightarrow> (\<exists>e. call_model (srv h m) = Inl e \<and> last_error st = Some e)
      | Break \<Rightarrow> False)"

section \<open>The candidate list\<close>

lemma strip_ends:
  "strip s \<noteq> [] \<Longrightarrow> \<not> isspace (hd (strip s)) \<and> \<not> isspace (last (strip s))"
  by (metis dropWhile_idem hd_dropWhile last_appendR last_rev rev.simps(1)
      rev_swap strip_def takeWhile_dropWhile_id)

lemma dedupe_loop_eq:
  "dedupe_loop ms seen ordered =
     ordered @ first_occurrences (filter (\<lambda>m. m \<notin> seen) ms)"
proof (induction ms arbitrary: seen ordered)
  case Nil
  show ?case by simp
next
  case (Cons m ms)
  show ?case
  proof (cases "m \<in> seen")
    case True
    then show ?thesis using Cons.IH [of seen ordered] by simp
  next
    case False
    have "filter (\<lambda>x. x \<noteq> m) (filter (\<lambda>x. x \<notin> seen) ms)
            = filter (\<lambda>x. x \<notin> insert m seen) ms"
      by (induction ms) auto
    then show ?thesis
      using False Cons.IH [of "insert m seen" "ordered @ [m]"] by simp
  qed
qed

lemma set_first_occurrences: "set (first_occurrences xs) = set xs"
  by (induction xs rule: first_occurrences.induct) auto

lemma distinct_first_occurrences: "distinct (first_occurrences xs)"
  by (induction xs rule: first_occurrences.induct) (auto simp: set_first_occurrences)

lemma strip_Nil: "strip [] = []"
  by (simp add: strip_def)

lemma split_comma_not_Nil: "split_comma s \<noteq> []"
  by (induction s) (auto split: list.splits)

lemma join_split_comma: "join_comma (split_comma s) = s"
proof (induction s)
  case Nil
  show ?case by simp
next
  case (Cons c cs)
  obtain w ws where sp: "split_comma cs = w # ws"
    using split_comma_not_Nil [of cs] by (cases "split_comma cs") auto
  with Cons show ?case by (cases ws) auto
qed

lemma split_comma_no_comma: "w \<in> set (split_comma s) \<Longrightarrow> CHR '','' \<notin> set w"
proof (induction s arbitrary: w)
  case Nil
  then show ?case by simp
next
  case (Cons c cs)
  obtain v vs where sp: "split_comma cs = v # vs"
    using split_comma_not_Nil [of cs] by (cases "split_comma cs") auto
  with Cons show ?case by (auto split: if_splits)
qed

lemma strip_decompose:
  "\<exists>pre post. w = pre @ strip w @ post \<and> (\<forall>c \<in> set pre. isspace c)
      \<and> (\<forall>c \<in> set post. isspace c)"
proof -
  let ?t = "dropWhile isspace w"
  let ?pre = "takeWhile isspace w"
  let ?post = "rev (takeWhile isspace (rev ?t))"
  have "rev (dropWhile isspace (rev ?t)) @ ?post
          = rev (takeWhile isspace (rev ?t) @ dropWhile isspace (rev ?t))"
    by (simp only: rev_append)
  also have "\<dots> = rev (rev ?t)" by (simp only: takeWhile_dropWhile_id)
  also have "\<dots> = ?t" by (simp only: rev_rev_ident)
  finally have t: "strip w @ ?post = ?t" by (simp only: strip_def)
  have "w = ?pre @ ?t" by simp
  with t have "w = ?pre @ strip w @ ?post" by simp
  moreover have "\<forall>c \<in> set ?pre. isspace c" by (auto dest: set_takeWhileD)
  moreover have "\<forall>c \<in> set ?post. isspace c" by (auto dest: set_takeWhileD)
  ultimately show ?thesis by blast
qed

lemma fallback_entries_spec:
  "fallback_entries raw = filter (\<lambda>e. e \<noteq> []) (map strip (split_comma raw))"
  by (simp add: fallback_entries_def filter_map comp_def)

lemma parse_model_list_eq:
  "parse_model_list primary fb = first_occurrences (primary # entries_of fb)"
  by (cases fb)
    (simp_all add: parse_model_list_def entries_of_def dedupe_loop_eq fallback_entries_spec
      strip_Nil)

lemma entries_of_trimmed:
  "e \<in> set (entries_of fb) \<Longrightarrow> e \<noteq> [] \<and> \<not> isspace (hd e) \<and> \<not> isspace (last e)"
  by (cases fb) (auto simp: entries_of_def strip_ends)

lemma distinct_parse_model_list: "distinct (parse_model_list primary fb)"
  unfolding parse_model_list_eq by (rule distinct_first_occurrences)

text \<open>
  C5. For every primary identifier and every optional fallback string, the list that
  \<open>_parse_model_list\<close> builds is the primary followed by the fallback entries in their
  given order, each later duplicate of an entry dropped (the first occurrence wins,
  the primary included), where the fallback entries are the pieces of the fallback
  string between its commas, each trimmed, the empty ones discarded. The list is not
  empty, starts with the primary, and has no duplicates; its entries are the primary
  and the fallback entries; a fallback entry is not empty and has no white space at
  either end; with a non-empty primary no entry of the list is empty. Splitting and
  trimming are what their names say: the pieces contain no comma and joined with commas
  they give the string back; a piece is its trimmed form between two strings of white
  space, and the trimmed form neither starts nor ends with white space. Primary \<open>m1\<close>
  with fallback \<open>m2,m1,m3\<close> gives \<open>[m1, m2, m3]\<close>, and so it does with blanks and
  empty entries in the fallback string.
\<close>

theorem parse_model_list_first_seen:
  "parse_model_list primary fb = first_occurrences (primary # entries_of fb)
   \<and> parse_model_list primary fb \<noteq> []
   \<and> hd (parse_model_list primary fb) = primary
   \<and> distinct (parse_model_list primary fb)
   \<and> set (parse_model_list primary fb) = insert primary (set (entries_of fb))
   \<and> (\<forall>e \<in> set (entries_of fb). e \<noteq> [] \<and> \<not> isspace (hd e) \<and> \<not> isspace (last e))
   \<and> (primary \<noteq> [] \<longrightarrow> [] \<notin> set (parse_model_list primary fb))
   \<and> parse_model_list ''m1'' (Some ''m2,m1,m3'') = [''m1'', ''m2'', ''m3'']
   \<and> parse_model_list ''m1'' (Some '' m2 ,,m1, m3 ,'') = [''m1'', ''m2'', ''m3'']
   \<and> parse_model_list ''m1'' None = [''m1'']
   \<and> join_comma (split_comma raw) = raw
   \<and> (\<forall>w \<in> set (split_comma raw). CHR '','' \<notin> set w)
   \<and> (\<exists>pre post. w = pre @ strip w @ post \<and> (\<forall>c \<in> set pre. isspace c)
         \<and> (\<forall>c \<in> set post. isspace c))
   \<and> (strip w \<noteq> [] \<longrightarrow> \<not> isspace (hd (strip w)) \<and> \<not> isspace (last (strip w)))
   \<and> isspace (CHR '' '') \<and> isspace (CHR 0x09) \<and> isspace (CHR 0x0A)
   \<and> \<not> isspace (CHR '','') \<and> \<not> isspace (CHR ''m'')"
proof -
  have ex: "parse_model_list ''m1'' (Some ''m2,m1,m3'') = [''m1'', ''m2'', ''m3'']"
    "parse_model_list ''m1'' (Some '' m2 ,,m1, m3 ,'') = [''m1'', ''m2'', ''m3'']"
    "parse_model_list ''m1'' None = [''m1'']"
    by (simp_all add: parse_model_list_def fallback_entries_def strip_def isspace_def
        whitespace_def)
  have tr: "\<forall>e \<in> set (entries_of fb). e \<noteq> [] \<and> \<not> isspace (hd e) \<and> \<not> isspace (last e)"
    using entries_of_trimmed [of _ fb] by blast
  have st: "set (parse_model_list primary fb) = insert primary (set (entries_of fb))"
    by (simp add: parse_model_list_eq set_first_occurrences del: first_occurrences.simps)
  have ne: "primary \<noteq> [] \<longrightarrow> [] \<notin> set (parse_model_list primary fb)"
    using tr st by auto
  have hd: "parse_model_list primary fb \<noteq> [] \<and> hd (parse_model_list primary fb) = primary"
    by (simp add: parse_model_list_eq)
  have sp: "join_comma (split_comma raw) = raw
      \<and> (\<forall>w \<in> set (split_comma raw). CHR '','' \<notin> set w)"
    using join_split_comma [of raw] split_comma_no_comma [of _ raw] by blast
  have ws: "isspace (CHR '' '') \<and> isspace (CHR 0x09) \<and> isspace (CHR 0x0A)
      \<and> \<not> isspace (CHR '','') \<and> \<not> isspace (CHR ''m'')"
    by (simp add: isspace_def whitespace_def)
  have se: "strip w \<noteq> [] \<longrightarrow> \<not> isspace (hd (strip w)) \<and> \<not> isspace (last (strip w))"
    using strip_ends [of w] by blast
  show ?thesis
    using ex tr st ne hd sp ws se strip_decompose [of w] parse_model_list_eq [of primary fb]
      distinct_parse_model_list [of primary fb]
    by blast
qed

theorem parse_model_list_first_seen_witness:
  "''m1'' \<noteq> []
   \<and> entries_of (Some '' m2 ,,m1, m3'') = [''m2'', ''m1'', ''m3'']
   \<and> parse_model_list ''m1'' (Some '' m2 ,,m1, m3'') = [''m1'', ''m2'', ''m3'']
   \<and> [] \<notin> set (parse_model_list ''m1'' (Some '' m2 ,,m1, m3''))
   \<and> distinct (parse_model_list ''m1'' (Some '' m2 ,,m1, m3''))"
proof -
  have h: "''m1'' \<noteq> []" by simp
  have ent: "entries_of (Some '' m2 ,,m1, m3'') = [''m2'', ''m1'', ''m3'']"
    by (simp add: entries_of_def strip_def isspace_def whitespace_def)
  note claim = parse_model_list_first_seen [of "''m1''" "Some '' m2 ,,m1, m3''"]
  from claim have "parse_model_list ''m1'' (Some '' m2 ,,m1, m3'')
      = first_occurrences (''m1'' # entries_of (Some '' m2 ,,m1, m3''))" by blast
  with ent have lst: "parse_model_list ''m1'' (Some '' m2 ,,m1, m3'') = [''m1'', ''m2'', ''m3'']"
    by simp
  from claim h have "[] \<notin> set (parse_model_list ''m1'' (Some '' m2 ,,m1, m3''))
      \<and> distinct (parse_model_list ''m1'' (Some '' m2 ,,m1, m3''))" by blast
  with h ent lst show ?thesis by blast
qed

section \<open>The handlers and one iteration\<close>

lemma range3: "[0..<3] = [0, 1, 2]"
  by (simp add: upt_rec)

lemmas run_defs = orchestrate_def range3 attempt_body_def call_model_def raise_for_status_def
  handle_failure_def response_bool_def ok_def backoff_or_break_def backoff_delays_def
  initial_def extract_text_def choices_text_def nonempty_text_def py_or_def dict_get_def
  strip_def isspace_def whitespace_def

lemma all_failed_append:
  "all_failed srv h (xs @ ys) = (all_failed srv h xs \<and> all_failed srv (h @ xs) ys)"
proof (induction xs arbitrary: h)
  case Nil show ?case by simp
next
  case (Cons x xs)
  show ?case using Cons.IH [of "h @ [x]"] by (cases x) simp_all
qed

lemma handle_failure_transient:
  "transient err \<Longrightarrow>
     handle_failure err attempt st = backoff_or_break attempt (st\<lparr>last_error := Some err\<rparr>)"
  by (cases err) (auto simp: handle_failure_def transient_def split: option.splits)

lemma handle_failure_cases:
  assumes "handle_failure e a st = (c, st')"
  shows "last_error st' = Some e \<and>
     ((c = Raise e \<or> c = Break) \<and> trace st' = trace st \<or>
      c = Continue \<and> a < 2 \<and> trace st' = trace st @ [Sleep (backoff_delays ! a)])"
  using assms
  by (cases e) (auto simp: handle_failure_def backoff_or_break_def Let_def split: if_splits option.splits)

lemma attempt_body_cases:
  assumes "attempt_body srv m a st = (c, st')"
  shows "(\<exists>t. c = Return t \<and> call_model (srv (trace st) m) = Inr t
              \<and> trace st' = trace st @ [Post m a] \<and> last_error st' = last_error st)
       \<or> (\<exists>e. call_model (srv (trace st) m) = Inl e \<and> last_error st' = Some e \<and>
              ((c = Raise e \<or> c = Break) \<and> trace st' = trace st @ [Post m a]
               \<or> c = Continue \<and> a < 2
                  \<and> trace st' = trace st @ [Post m a, Sleep (backoff_delays ! a)]))"
proof (cases "call_model (srv (trace st) m)")
  case (Inr t)
  with assms show ?thesis by (auto simp: attempt_body_def)
next
  case (Inl e)
  with assms have "handle_failure e a (st\<lparr>trace := trace st @ [Post m a]\<rparr>) = (c, st')"
    by (simp add: attempt_body_def)
  from handle_failure_cases [OF this] Inl show ?thesis by auto
qed

lemma handle_failure_other:
  assumes "\<And>resp. e \<noteq> HTTPError resp"
  shows "handle_failure e attempt st = backoff_or_break attempt (st\<lparr>last_error := Some e\<rparr>)"
proof (cases e)
  case (HTTPError resp)
  with assms show ?thesis by blast
qed (simp_all add: handle_failure_def)

section \<open>The loops\<close>

lemma for_attempts_run:
  assumes "for_attempts srv m as st = (c, st')" "all_failed srv [] (trace st)"
    "as \<noteq> []" "2 \<le> last as"
  shows "\<exists>h k. trace st' = h @ [Post m k] \<and> k \<in> set as \<and> all_failed srv [] h
           \<and> verdict srv c st' h m"
  using assms
proof (induction as arbitrary: st)
  case Nil
  then show ?case by simp
next
  case (Cons a as)
  obtain c1 st1 where body: "attempt_body srv m a st = (c1, st1)"
    by (cases "attempt_body srv m a st")
  from attempt_body_cases [OF body]
  consider
    (ret) t where "c1 = Return t" "call_model (srv (trace st) m) = Inr t"
      "trace st1 = trace st @ [Post m a]"
  | (stop) e where "call_model (srv (trace st) m) = Inl e" "last_error st1 = Some e"
      "c1 = Raise e \<or> c1 = Break" "trace st1 = trace st @ [Post m a]"
  | (cont) e where "call_model (srv (trace st) m) = Inl e" "c1 = Continue" "a < 2"
      "trace st1 = trace st @ [Post m a, Sleep (backoff_delays ! a)]"
    by blast
  then show ?case
  proof cases
    case ret
    with body Cons.prems(1) have "c = Return t" "st' = st1" by auto
    with ret Cons.prems(2) show ?thesis by (auto simp: verdict_def)
  next
    case stop
    with body Cons.prems(1) have "(c = Raise e \<or> c = Continue) \<and> st' = st1" by auto
    with stop Cons.prems(2) show ?thesis by (auto simp: verdict_def)
  next
    case cont
    with Cons.prems(3,4) have ne: "as \<noteq> []" "2 \<le> last as" by (auto split: if_splits)
    from cont body Cons.prems(1) have rest: "for_attempts srv m as st1 = (c, st')" by simp
    from cont Cons.prems(2) have "all_failed srv [] (trace st1)"
      by (simp add: all_failed_append)
    from Cons.IH [OF rest this ne] show ?thesis by auto
  qed
qed

lemma for_models_run:
  assumes "for_models srv ms st = (c, st')" "all_failed srv [] (trace st)" "ms \<noteq> []"
  shows "\<exists>h m k. trace st' = h @ [Post m k] \<and> m \<in> set ms \<and> k < 3 \<and> all_failed srv [] h
           \<and> verdict srv c st' h m"
  using assms
proof (induction ms arbitrary: st)
  case Nil
  then show ?case by simp
next
  case (Cons m ms)
  obtain c1 st1 where inner: "for_attempts srv m [0, 1, 2] st = (c1, st1)"
    by (cases "for_attempts srv m [0, 1, 2] st")
  from for_attempts_run [OF inner Cons.prems(2)]
  obtain h k where hk: "trace st1 = h @ [Post m k]" "k < 3" "all_failed srv [] h"
    "verdict srv c1 st1 h m" by auto
  show ?case
  proof (cases "c1 = Continue")
    case False
    with hk(4) inner Cons.prems(1) have "c = c1" "st' = st1"
      by (cases c1; simp add: range3 verdict_def)+
    with hk show ?thesis by auto
  next
    case True
    with inner Cons.prems(1) have rest: "for_models srv ms st1 = (c, st')"
      by (simp add: range3)
    show ?thesis
    proof (cases "ms = []")
      case True
      with rest have "c = Continue" "st' = st1" by auto
      with hk \<open>c1 = Continue\<close> show ?thesis by auto
    next
      case False
      from True hk have "all_failed srv [] (trace st1)"
        by (auto simp: all_failed_append verdict_def)
      from Cons.IH [OF rest this False] show ?thesis by auto
    qed
  qed
qed


lemma calls_to_append: "calls_to m (xs @ ys) = calls_to m xs + calls_to m ys"
  by (simp add: calls_to_def)

lemma calls_to_other:
  "(\<And>m' k. Post m' k \<in> set tr \<Longrightarrow> m' \<noteq> m) \<Longrightarrow> calls_to m tr = 0"
proof (induction tr)
  case Nil
  show ?case by (simp add: calls_to_def)
next
  case (Cons e tr)
  then show ?case by (cases e) (auto simp: calls_to_def)
qed

lemma for_attempts_posts:
  assumes "for_attempts srv m as st = (c, st')"
  shows "\<exists>ext. trace st' = trace st @ ext
           \<and> (\<forall>m' k. Post m' k \<in> set ext \<longrightarrow> m' = m \<and> k \<in> set as)
           \<and> calls_to m ext \<le> length as"
  using assms
proof (induction as arbitrary: st)
  case Nil
  then show ?case by (simp add: calls_to_def)
next
  case (Cons a as)
  obtain c1 st1 where body: "attempt_body srv m a st = (c1, st1)"
    by (cases "attempt_body srv m a st")
  from attempt_body_cases [OF body]
  consider
    (stop) "c1 \<noteq> Continue" "trace st1 = trace st @ [Post m a]"
  | (cont) "c1 = Continue" "trace st1 = trace st @ [Post m a, Sleep (backoff_delays ! a)]"
    by blast
  then show ?case
  proof cases
    case stop
    with body Cons.prems have "st' = st1" by (cases c1) auto
    with stop show ?thesis by (simp add: calls_to_def)
  next
    case cont
    with body Cons.prems have "for_attempts srv m as st1 = (c, st')" by simp
    from Cons.IH [OF this] obtain ext where ext: "trace st' = trace st1 @ ext"
      "\<forall>m' k. Post m' k \<in> set ext \<longrightarrow> m' = m \<and> k \<in> set as"
      "calls_to m ext \<le> length as" by blast
    let ?ext = "[Post m a, Sleep (backoff_delays ! a)] @ ext"
    have "trace st' = trace st @ ?ext" using ext(1) cont(2) by simp
    moreover have "\<forall>m' k. Post m' k \<in> set ?ext \<longrightarrow> m' = m \<and> k \<in> set (a # as)"
      using ext(2) by auto
    moreover have "calls_to m ?ext \<le> length (a # as)"
      using ext(3) by (simp add: calls_to_def)
    ultimately show ?thesis by blast
  qed
qed

lemma for_models_posts:
  assumes "for_models srv ms st = (c, st')"
  shows "\<exists>ext. trace st' = trace st @ ext
           \<and> (\<forall>m k. Post m k \<in> set ext \<longrightarrow> m \<in> set ms \<and> k < 3)
           \<and> (\<forall>m. calls_to m ext \<le> 3 * count_list ms m)"
  using assms
proof (induction ms arbitrary: st)
  case Nil
  then show ?case by (simp add: calls_to_def)
next
  case (Cons m ms)
  obtain c1 st1 where inner: "for_attempts srv m [0, 1, 2] st = (c1, st1)"
    by (cases "for_attempts srv m [0, 1, 2] st")
  from for_attempts_posts [OF inner] obtain e1 where e1: "trace st1 = trace st @ e1"
    "\<forall>m' k. Post m' k \<in> set e1 \<longrightarrow> m' = m \<and> k \<in> set [0, 1, 2]"
    "calls_to m e1 \<le> 3" by auto
  have other: "calls_to m' e1 = 0" if "m' \<noteq> m" for m'
    using e1(2) that by (intro calls_to_other) auto
  have e1_bound: "calls_to m' e1 \<le> 3 * count_list [m] m'" for m'
    using e1(3) other [of m'] by (cases "m' = m") auto
  have e1_posts: "\<forall>m' k. Post m' k \<in> set e1 \<longrightarrow> m' \<in> set (m # ms) \<and> k < 3"
    using e1(2) by fastforce
  show ?case
  proof (cases "c1 = Continue \<or> c1 = Break")
    case False
    with inner Cons.prems have "st' = st1" by (cases c1) (auto simp: range3)
    moreover have "calls_to m' e1 \<le> 3 * count_list (m # ms) m'" for m'
      using e1_bound [of m'] by auto
    ultimately show ?thesis using e1(1) e1_posts by blast
  next
    case True
    with inner Cons.prems have "for_models srv ms st1 = (c, st')"
      by (auto simp: range3)
    from Cons.IH [OF this] obtain e2 where e2: "trace st' = trace st1 @ e2"
      "\<forall>m k. Post m k \<in> set e2 \<longrightarrow> m \<in> set ms \<and> k < 3"
      "\<forall>m. calls_to m e2 \<le> 3 * count_list ms m" by blast
    have "trace st' = trace st @ (e1 @ e2)" using e1(1) e2(1) by simp
    moreover have "\<forall>m' k. Post m' k \<in> set (e1 @ e2) \<longrightarrow> m' \<in> set (m # ms) \<and> k < 3"
      using e1_posts e2(2) by auto
    moreover have "\<forall>m'. calls_to m' (e1 @ e2) \<le> 3 * count_list (m # ms) m'"
    proof
      fix m'
      from e1_bound [of m'] e2(3) show "calls_to m' (e1 @ e2) \<le> 3 * count_list (m # ms) m'"
        by (auto simp: calls_to_append dest: spec [of _ m'])
    qed
    ultimately show ?thesis by blast
  qed
qed

lemma initial_all_failed: "all_failed srv [] (trace initial)"
  by (simp add: initial_def)

lemma orchestrate_result:
  assumes "for_models srv models initial = (c, st)"
  shows "snd (orchestrate srv models) = st"
    and "fst (orchestrate srv models) = Inr t \<longleftrightarrow> c = Return t"
  using assms by (cases c; simp add: orchestrate_def)+

lemma success_is_last:
  assumes run: "for_models srv ms initial = (c, st)"
    and split: "trace st = h @ Post m k # rest"
    and success: "call_model (srv h m) = Inr t"
  shows "rest = [] \<and> c = Return t"
proof -
  have "ms \<noteq> []" using run split by (auto simp: initial_def)
  from for_models_run [OF run initial_all_failed this]
  obtain h0 m0 k0 where end0: "trace st = h0 @ [Post m0 k0]" "all_failed srv [] h0"
    "verdict srv c st h0 m0" by blast
  show ?thesis
  proof (cases rest rule: rev_cases)
    case Nil
    with split end0(1) have "h0 = h" "m0 = m" by auto
    with end0(3) success have "c = Return t"
      by (cases c) (auto simp: verdict_def)
    with Nil show ?thesis by simp
  next
    case (snoc rest' x)
    with split end0(1) have "h0 = h @ Post m k # rest'" by auto
    with end0(2) have "isl (call_model (srv h m))"
      by (simp add: all_failed_append)
    with success show ?thesis by simp
  qed
qed

lemma distinct_count_list: "distinct xs \<Longrightarrow> count_list xs x \<le> 1"
  by (induction xs) (auto simp: count_list_0_iff)

lemma generate_affirmation_cases:
  "generate_affirmation env srv = (Inl (ValueError ''HUGGING_FACE_API_KEY not set in environment''), initial)
   \<or> (\<exists>primary fb. generate_affirmation env srv = orchestrate srv (parse_model_list primary fb))"
  by (auto simp: generate_affirmation_def Let_def)

section \<open>Parsing a response\<close>

lemma subscript0_not_http: "subscript0 v = Inl e \<Longrightarrow> e \<noteq> HTTPError resp"
  by (cases v rule: subscript0.cases) auto

lemma py_get_not_http: "py_get v k = Inl e \<Longrightarrow> e \<noteq> HTTPError resp"
  by (cases v) auto

lemma py_strip_not_http: "py_strip v = Inl e \<Longrightarrow> e \<noteq> HTTPError resp"
  by (cases v) auto

lemma nonempty_text_not_http: "nonempty_text t = Inl e \<Longrightarrow> e \<noteq> HTTPError resp"
  by (auto simp: nonempty_text_def split: if_splits)

lemma choices_text_not_http: "choices_text v = Inl e \<Longrightarrow> e \<noteq> HTTPError resp"
  by (auto simp: choices_text_def Let_def split: sum.splits
      dest: subscript0_not_http py_get_not_http py_strip_not_http)

lemma extract_text_not_http: "extract_text result = Inl e \<Longrightarrow> e \<noteq> HTTPError resp"
  by (cases result)
    (auto simp: extract_text_def Let_def split: sum.splits if_splits
      dest: choices_text_not_http nonempty_text_not_http)

lemma call_model_ok_not_http:
  "ok r \<Longrightarrow> call_model (Responds r) = Inl e \<Longrightarrow> e \<noteq> HTTPError resp"
  by (auto simp: call_model_def ok_def split: sum.splits option.splits
      dest: extract_text_not_http)

lemma subscript0_Inr:
  "subscript0 v = Inr x \<Longrightarrow> (\<exists>xs. v = JArr (x # xs)) \<or> (\<exists>c cs. v = JStr (c # cs) \<and> x = JStr [c])"
  by (cases v rule: subscript0.cases) auto

lemma py_get_Inr: "py_get v k = Inr x \<Longrightarrow> \<exists>d. v = JObj d \<and> x = dict_get d k"
  by (cases v) auto

lemma py_strip_Inr: "py_strip v = Inr t \<Longrightarrow> \<exists>s. v = JStr s \<and> t = strip s"
  by (cases v) auto

lemma dict_get_JStr: "dict_get d k = JStr s \<Longrightarrow> map_of d k = Some (JStr s)"
  by (auto simp: dict_get_def split: option.splits)

lemma choices_text_Inr:
  assumes "choices_text choices = Inr text" "text \<noteq> []"
  shows "\<exists>first rest message s. choices = JArr (JObj first # rest)
           \<and> dict_get first ''message'' = JObj message
           \<and> map_of message ''content'' = Some (JStr s) \<and> text = strip s"
proof -
  from assms(1) obtain x where x: "subscript0 choices = Inr x"
    by (auto simp: choices_text_def split: sum.splits)
  with assms(1) obtain m where m: "py_get x ''message'' = Inr m"
    by (auto simp: choices_text_def split: sum.splits)
  from py_get_Inr [OF m] obtain first where first: "x = JObj first" "m = dict_get first ''message''"
    by blast
  from x first subscript0_Inr [OF x] obtain rest where ch: "choices = JArr (JObj first # rest)"
    by auto
  from assms(1) x m obtain content where
    c: "py_get (py_or m (JObj [])) ''content'' = Inr content"
    and t: "py_strip (py_or content (JStr [])) = Inr text"
    by (auto simp: choices_text_def Let_def split: sum.splits)
  from py_get_Inr [OF c] obtain message where
    msg: "py_or m (JObj []) = JObj message" "content = dict_get message ''content''" by blast
  from py_strip_Inr [OF t] obtain s where s: "py_or content (JStr []) = JStr s" "text = strip s"
    by blast
  from s assms(2) have "s \<noteq> []" by (auto simp: strip_Nil)
  with s(1) have cs: "content = JStr s" by (auto simp: py_or_def split: if_splits)
  with msg(2) have "dict_get message ''content'' = JStr s" by simp
  then have mo: "map_of message ''content'' = Some (JStr s)"
    by (rule dict_get_JStr)
  then have "message \<noteq> []" by auto
  with msg(1) have "m = JObj message" by (auto simp: py_or_def split: if_splits)
  with first(2) have "dict_get first ''message'' = JObj message" by simp
  with ch mo s(2) show ?thesis by blast
qed

lemma extract_text_Inr:
  assumes "extract_text result = Inr text"
  shows "text \<noteq> [] \<and> (\<exists>s. content_field result = Some (JStr s) \<and> text = strip s)"
proof -
  have ne: "text \<noteq> []"
    using assms
    by (cases result)
      (auto simp: extract_text_def nonempty_text_def Let_def split: if_splits sum.splits)
  from assms obtain d where d: "result = JObj d"
    by (cases result) (auto simp: extract_text_def nonempty_text_def)
  let ?choices = "py_or (dict_get d ''choices'') (JArr [])"
  from assms d ne have tr: "truthy ?choices" and ct: "choices_text ?choices = Inr text"
    by (auto simp: extract_text_def nonempty_text_def Let_def split: if_splits sum.splits)
  from choices_text_Inr [OF ct ne] obtain first rest message s where
    f: "?choices = JArr (JObj first # rest)" "dict_get first ''message'' = JObj message"
       "map_of message ''content'' = Some (JStr s)" "text = strip s" by blast
  from f(1) have "dict_get d ''choices'' = JArr (JObj first # rest)"
    by (auto simp: py_or_def split: if_splits)
  with d f ne show ?thesis by simp
qed

lemma call_model_Inr:
  assumes "call_model out = Inr text"
  shows "\<exists>r result s. out = Responds r \<and> ok r \<and> json_body r = Some result
           \<and> content_field result = Some (JStr s) \<and> text = strip s \<and> text \<noteq> []"
proof -
  from assms obtain r where r: "out = Responds r"
    by (cases out) (auto simp: call_model_def)
  with assms have okr: "ok r"
    by (auto simp: call_model_def ok_def split: sum.splits)
  from assms r obtain result where res: "json_body r = Some result" "extract_text result = Inr text"
    by (auto simp: call_model_def split: sum.splits option.splits)
  from extract_text_Inr [OF res(2)] r okr res(1) show ?thesis by auto
qed

lemma ok_2xx: "200 \<le> status_code r \<Longrightarrow> status_code r < 300 \<Longrightarrow> ok r"
  by (simp add: ok_def raise_for_status_def)

lemma call_model_ok:
  "ok r \<Longrightarrow> json_body r = Some result \<Longrightarrow> call_model (Responds r) = extract_text result"
  by (auto simp: call_model_def ok_def split: sum.splits)

lemma text_trimmed:
  assumes "text = strip s" "text \<noteq> []"
  shows "\<not> isspace (hd text) \<and> \<not> isspace (last text)"
  using assms strip_ends [of s] by simp









section \<open>HTTP errors\<close>

text \<open>
  An HTTP error raised by \<open>raise_for_status\<close> carries a response whose status is
  between 400 and 599. The truth value of that response object is \<open>False\<close>, so the
  first handler reads the status as \<open>None\<close>. A response object that is true has a
  status outside this range. Either way the status that the handler compares is none
  of 401, 403, 404, 410, and every failure takes the path of \<open>backoff_or_break\<close>.
\<close>

lemma response_bool_status:
  "response_bool r \<Longrightarrow> \<not> (400 \<le> status_code r \<and> status_code r < 600)"
  by (simp add: response_bool_def ok_def raise_for_status_def split: if_splits)

lemma handle_failure_eq:
  "handle_failure err attempt st = backoff_or_break attempt (st\<lparr>last_error := Some err\<rparr>)"
proof (cases err)
  case (HTTPError resp)
  show ?thesis
  proof (cases resp)
    case None
    with HTTPError show ?thesis by (simp add: handle_failure_def)
  next
    case (Some r)
    show ?thesis
    proof (cases "response_bool r")
      case True
      from response_bool_status [OF True] show ?thesis
        using HTTPError Some True by (auto simp: handle_failure_def)
    next
      case False
      then show ?thesis using HTTPError Some by (simp add: handle_failure_def)
    qed
  qed
qed (simp_all add: handle_failure_def)

text \<open>
  C1. The claim is that a failure with status 401 or 403 ends the whole run at once.
  On an endpoint that answers every request with status 401, and the candidates
  \<open>A\<close> and \<open>B\<close>, the code sends all three requests for \<open>A\<close>, with pauses of 2 and 4
  seconds, then all three requests for \<open>B\<close>, and raises the last HTTP error only
  after the sixth request.
\<close>

theorem unauthorized_response_is_retried:
  "orchestrate (\<lambda>h m. Responds \<lparr>status_code = 401, json_body = None\<rparr>) [''A'', ''B'']
     = (Inl (HTTPError (Some \<lparr>status_code = 401, json_body = None\<rparr>)),
        \<lparr>last_error = Some (HTTPError (Some \<lparr>status_code = 401, json_body = None\<rparr>)),
         trace = [Post ''A'' 0, Sleep 2, Post ''A'' 1, Sleep 4, Post ''A'' 2,
                  Post ''B'' 0, Sleep 2, Post ''B'' 1, Sleep 4, Post ''B'' 2]\<rparr>)"
  by (simp add: run_defs)

text \<open>
  C2. The claim is that a failure with status 404 or 410 ends the attempts on that
  model at once, without a pause. On an endpoint that answers status 404 for model
  \<open>A\<close> and a completion for model \<open>B\<close>, the code sends all three requests for \<open>A\<close>,
  with pauses of 2 and 4 seconds, before the first request for \<open>B\<close>.
\<close>

theorem not_found_response_is_retried:
  "orchestrate
     (\<lambda>h m. if m = ''A'' then Responds \<lparr>status_code = 404, json_body = None\<rparr>
            else Responds \<lparr>status_code = 200, json_body = Some (JObj [(''choices'',
                   JArr [JObj [(''message'', JObj [(''content'', JStr ''Stay steady.'')])]])])\<rparr>)
     [''A'', ''B'']
     = (Inr ''Stay steady.'',
        \<lparr>last_error = Some (HTTPError (Some \<lparr>status_code = 404, json_body = None\<rparr>)),
         trace = [Post ''A'' 0, Sleep 2, Post ''A'' 1, Sleep 4, Post ''A'' 2, Post ''B'' 0]\<rparr>)"
  by (simp add: run_defs)



section \<open>Runs of the orchestrator\<close>

text \<open>
  C3. With one candidate model whose three attempts all fail with transient failures,
  the run is: request, pause of 2 seconds, request, pause of 4 seconds, request. There
  is no pause after the third request, and the run ends by raising the failure of the
  third attempt.
\<close>

theorem three_transient_failures_two_waits:
  assumes "call_model (srv [] m) = Inl e0" "transient e0"
    and "call_model (srv [Post m 0, Sleep 2] m) = Inl e1" "transient e1"
    and "call_model (srv [Post m 0, Sleep 2, Post m 1, Sleep 4] m) = Inl e2" "transient e2"
  shows "orchestrate srv [m] =
           (Inl e2, \<lparr>last_error = Some e2,
                     trace = [Post m 0, Sleep 2, Post m 1, Sleep 4, Post m 2]\<rparr>)"
  using assms
  by (simp add: orchestrate_def range3 attempt_body_def handle_failure_transient
      backoff_or_break_def backoff_delays_def initial_def)

theorem three_transient_failures_two_waits_witness:
  "orchestrate (\<lambda>h m. Raises Timeout) [''m1''] =
     (Inl Timeout, \<lparr>last_error = Some Timeout,
        trace = [Post ''m1'' 0, Sleep 2, Post ''m1'' 1, Sleep 4, Post ''m1'' 2]\<rparr>)"
  using three_transient_failures_two_waits [of "\<lambda>h m. Raises Timeout" "''m1''" Timeout Timeout Timeout]
  by (simp add: call_model_def transient_def)

text \<open>
  C6. In every run, a request that the trace records is for a candidate model and has an
  attempt index below 3; a model receives at most 3 requests for each occurrence in the
  candidate list, so at most 3 when the list has no duplicates, as in every run of
  \<open>_generate_affirmation\<close>. A request that is answered by a text is the last event of
  the trace, and the run returns that text: no pause, no further attempt and no further
  model follows it. A run that returns a text returns the answer to its last request.
\<close>

theorem attempt_budget_and_first_success:
  "(\<forall>m k. Post m k \<in> set (trace (snd (orchestrate srv models))) \<longrightarrow> m \<in> set models \<and> k < 3)
   \<and> (\<forall>m. calls_to m (trace (snd (orchestrate srv models))) \<le> 3 * count_list models m)
   \<and> (distinct models \<longrightarrow> (\<forall>m. calls_to m (trace (snd (orchestrate srv models))) \<le> 3))
   \<and> (\<forall>m. calls_to m (trace (snd (generate_affirmation env srv))) \<le> 3)
   \<and> (\<forall>h m k rest t.
         trace (snd (orchestrate srv models)) = h @ Post m k # rest
         \<and> call_model (srv h m) = Inr t
         \<longrightarrow> rest = [] \<and> fst (orchestrate srv models) = Inr t)
   \<and> (\<forall>t. fst (orchestrate srv models) = Inr t \<longrightarrow>
         (\<exists>h m k. trace (snd (orchestrate srv models)) = h @ [Post m k]
            \<and> call_model (srv h m) = Inr t))"
proof -
  have bound: "(\<forall>m k. Post m k \<in> set (trace (snd (orchestrate srv ms))) \<longrightarrow> m \<in> set ms \<and> k < 3)
      \<and> (\<forall>m. calls_to m (trace (snd (orchestrate srv ms))) \<le> 3 * count_list ms m)" for ms
  proof -
    obtain c st where run: "for_models srv ms initial = (c, st)"
      by (cases "for_models srv ms initial")
    from for_models_posts [OF run] orchestrate_result(1) [OF run]
    show ?thesis by (auto simp: initial_def)
  qed
  have dist: "\<forall>m. calls_to m (trace (snd (orchestrate srv ms))) \<le> 3" if "distinct ms" for ms
  proof
    fix m
    from bound [of ms] have "calls_to m (trace (snd (orchestrate srv ms))) \<le> 3 * count_list ms m"
      by blast
    with distinct_count_list [OF that, of m] show "calls_to m (trace (snd (orchestrate srv ms))) \<le> 3"
      by simp
  qed
  have gen: "\<forall>m. calls_to m (trace (snd (generate_affirmation env srv))) \<le> 3"
  proof -
    from generate_affirmation_cases [of env srv] show ?thesis
    proof
      assume "generate_affirmation env srv =
        (Inl (ValueError ''HUGGING_FACE_API_KEY not set in environment''), initial)"
      then show ?thesis by (simp add: initial_def calls_to_def)
    next
      assume "\<exists>primary fb. generate_affirmation env srv = orchestrate srv (parse_model_list primary fb)"
      then obtain primary fb where
        "generate_affirmation env srv = orchestrate srv (parse_model_list primary fb)" by blast
      with dist [OF distinct_parse_model_list [of primary fb]] show ?thesis by simp
    qed
  qed
  obtain c st where run: "for_models srv models initial = (c, st)"
    by (cases "for_models srv models initial")
  note res = orchestrate_result [OF run]
  have first: "\<forall>h m k rest t.
         trace (snd (orchestrate srv models)) = h @ Post m k # rest
         \<and> call_model (srv h m) = Inr t
         \<longrightarrow> rest = [] \<and> fst (orchestrate srv models) = Inr t"
    using success_is_last [OF run] res by auto
  have last: "\<forall>t. fst (orchestrate srv models) = Inr t \<longrightarrow>
         (\<exists>h m k. trace (snd (orchestrate srv models)) = h @ [Post m k]
            \<and> call_model (srv h m) = Inr t)"
  proof (intro allI impI)
    fix t assume "fst (orchestrate srv models) = Inr t"
    with res(2) [of t] have c: "c = Return t" by blast
    with run have "models \<noteq> []" by auto
    from for_models_run [OF run initial_all_failed this] c res(1)
    show "\<exists>h m k. trace (snd (orchestrate srv models)) = h @ [Post m k]
            \<and> call_model (srv h m) = Inr t"
      by (auto simp: verdict_def)
  qed
  from bound [of models] dist [of models] gen first last show ?thesis by blast
qed

theorem attempt_budget_and_first_success_witness:
  "distinct [''m1'', ''m2'', ''m3'']
   \<and> trace (snd (orchestrate
         (\<lambda>h m. if h = [] then Responds \<lparr>status_code = 500, json_body = None\<rparr>
                else Responds \<lparr>status_code = 200, json_body = Some (JObj [(''choices'',
                  JArr [JObj [(''message'',
                    JObj [(''content'', JStr ''Stay steady, Amina.'')])]])])\<rparr>)
         [''m1'', ''m2'', ''m3'']))
       = [Post ''m1'' 0, Sleep 2] @ Post ''m1'' 1 # []
   \<and> fst (orchestrate
         (\<lambda>h m. if h = [] then Responds \<lparr>status_code = 500, json_body = None\<rparr>
                else Responds \<lparr>status_code = 200, json_body = Some (JObj [(''choices'',
                  JArr [JObj [(''message'',
                    JObj [(''content'', JStr ''Stay steady, Amina.'')])]])])\<rparr>)
         [''m1'', ''m2'', ''m3''])
       = Inr ''Stay steady, Amina.''
   \<and> calls_to ''m1'' (trace (snd (orchestrate
         (\<lambda>h m. if h = [] then Responds \<lparr>status_code = 500, json_body = None\<rparr>
                else Responds \<lparr>status_code = 200, json_body = Some (JObj [(''choices'',
                  JArr [JObj [(''message'',
                    JObj [(''content'', JStr ''Stay steady, Amina.'')])]])])\<rparr>)
         [''m1'', ''m2'', ''m3'']))) \<le> 3"
proof -
  let ?srv = "\<lambda>(h :: event list) (m :: string).
      if h = [] then Responds \<lparr>status_code = 500, json_body = None\<rparr>
      else Responds \<lparr>status_code = 200, json_body = Some (JObj [(''choices'',
        JArr [JObj [(''message'', JObj [(''content'', JStr ''Stay steady, Amina.'')])]])])\<rparr>"
  let ?ms = "[''m1'', ''m2'', ''m3'']"
  have d: "distinct ?ms" by simp
  have tr: "trace (snd (orchestrate ?srv ?ms)) = [Post ''m1'' 0, Sleep 2] @ Post ''m1'' 1 # []"
    by (simp add: run_defs)
  have ok: "call_model (?srv [Post ''m1'' 0, Sleep 2] ''m1'') = Inr ''Stay steady, Amina.''"
    by (simp add: run_defs)
  note claim = attempt_budget_and_first_success [of ?srv ?ms Map.empty]
  from claim tr ok have res: "fst (orchestrate ?srv ?ms) = Inr ''Stay steady, Amina.''"
    by blast
  from claim d have "calls_to ''m1'' (trace (snd (orchestrate ?srv ?ms))) \<le> 3"
    by blast
  with d tr res show ?thesis by blast
qed

text \<open>
  C7. When the loop over a non-empty candidate list ends without a text and without a
  re-raised error, \<open>last_error\<close> holds a failure, it is the failure that answered the last
  request of the run, and the run ends by raising it. The list that
  \<open>_parse_model_list\<close> builds is never empty, so in \<open>_generate_affirmation\<close> the final
  \<open>raise\<close> never takes the generic \<open>RuntimeError\<close>.
\<close>

theorem exhausted_raises_last_failure:
  "(models \<noteq> [] \<and> for_models srv models initial = (Continue, st) \<longrightarrow>
      (\<exists>e h m k. last_error st = Some e \<and> orchestrate srv models = (Inl e, st)
         \<and> trace st = h @ [Post m k] \<and> call_model (srv h m) = Inl e))
   \<and> (for_models srv (parse_model_list primary fb) initial = (Continue, st) \<longrightarrow>
      (\<exists>e. last_error st = Some e
         \<and> orchestrate srv (parse_model_list primary fb) = (Inl e, st)))"
proof -
  have main: "\<exists>e h m k. last_error st = Some e \<and> orchestrate srv ms = (Inl e, st)
         \<and> trace st = h @ [Post m k] \<and> call_model (srv h m) = Inl e"
    if ne: "ms \<noteq> []" and run: "for_models srv ms initial = (Continue, st)" for ms
  proof -
    from for_models_run [OF run initial_all_failed ne]
    obtain h m k e where "trace st = h @ [Post m k]" "call_model (srv h m) = Inl e"
      "last_error st = Some e" by (auto simp: verdict_def)
    moreover from this run have "orchestrate srv ms = (Inl e, st)"
      by (simp add: orchestrate_def)
    ultimately show ?thesis by blast
  qed
  have "parse_model_list primary fb \<noteq> []" by (simp add: parse_model_list_eq)
  with main [of models] main [of "parse_model_list primary fb"] show ?thesis by blast
qed

theorem exhausted_raises_last_failure_witness:
  "[''m1''] \<noteq> []
   \<and> for_models (\<lambda>h m. Raises Timeout) [''m1''] initial
       = (Continue, \<lparr>last_error = Some Timeout,
            trace = [Post ''m1'' 0, Sleep 2, Post ''m1'' 1, Sleep 4, Post ''m1'' 2]\<rparr>)
   \<and> orchestrate (\<lambda>h m. Raises Timeout) [''m1'']
       = (Inl Timeout, \<lparr>last_error = Some Timeout,
            trace = [Post ''m1'' 0, Sleep 2, Post ''m1'' 1, Sleep 4, Post ''m1'' 2]\<rparr>)"
proof -
  let ?st = "\<lparr>last_error = Some Timeout,
      trace = [Post ''m1'' 0, Sleep 2, Post ''m1'' 1, Sleep 4, Post ''m1'' 2]\<rparr>"
  have ne: "[''m1''] \<noteq> []" by simp
  have run: "for_models (\<lambda>h m. Raises Timeout) [''m1''] initial = (Continue, ?st)"
    by (simp add: run_defs)
  from exhausted_raises_last_failure [of "[''m1'']" "\<lambda>h m. Raises Timeout" ?st] ne run
  have "orchestrate (\<lambda>h m. Raises Timeout) [''m1''] = (Inl Timeout, ?st)"
    by auto
  with ne run show ?thesis by blast
qed

section \<open>Answers that are not a text\<close>

text \<open>
  C4. A response whose \<open>choices[0].message.content\<close> is missing, is not a string, or is
  a string that is empty or consists of white space is never a success: (1) a text that
  the inference caller returns is not empty, has no white space at either end and is the
  stripped content string of the body; (2) for a 2xx response without such a content the
  call fails with an exception that is not an HTTP error, which the handler treats like
  any failed call, by \<open>backoff_or_break\<close>; (3) a text that a run returns is not empty,
  has no white space at either end and is the stripped content string of the answer to
  the last request.
\<close>

theorem empty_text_never_returned:
  "(call_model (Responds r) = Inr text \<longrightarrow>
      text \<noteq> [] \<and> \<not> isspace (hd text) \<and> \<not> isspace (last text)
      \<and> (\<exists>result s. json_body r = Some result \<and> content_field result = Some (JStr s)
            \<and> text = strip s))
   \<and> (200 \<le> status_code r2 \<and> status_code r2 < 300 \<and> json_body r2 = Some result2
      \<and> \<not> (\<exists>s. content_field result2 = Some (JStr s) \<and> strip s \<noteq> []) \<longrightarrow>
      (\<exists>e. call_model (Responds r2) = Inl e \<and> (\<forall>resp. e \<noteq> HTTPError resp)
         \<and> handle_failure e attempt st
             = backoff_or_break attempt (st\<lparr>last_error := Some e\<rparr>)))
   \<and> (fst (orchestrate srv models) = Inr text3 \<longrightarrow>
      text3 \<noteq> [] \<and> \<not> isspace (hd text3) \<and> \<not> isspace (last text3)
      \<and> (\<exists>h m k r' result s. trace (snd (orchestrate srv models)) = h @ [Post m k]
            \<and> srv h m = Responds r' \<and> json_body r' = Some result
            \<and> content_field result = Some (JStr s) \<and> text3 = strip s))"
proof (intro conjI impI)
  assume a: "call_model (Responds r) = Inr text"
  from call_model_Inr [OF a] obtain result s where
    f: "json_body r = Some result" "content_field result = Some (JStr s)" "text = strip s"
       "text \<noteq> []" by auto
  from f(4) show "text \<noteq> []" .
  from text_trimmed [OF f(3,4)] show "\<not> isspace (hd text)" "\<not> isspace (last text)"
    by simp_all
  from f show "\<exists>result s. json_body r = Some result \<and> content_field result = Some (JStr s)
            \<and> text = strip s" by blast
next
  assume a: "200 \<le> status_code r2 \<and> status_code r2 < 300 \<and> json_body r2 = Some result2
      \<and> \<not> (\<exists>s. content_field result2 = Some (JStr s) \<and> strip s \<noteq> [])"
  then have okr: "ok r2" by (simp add: ok_2xx)
  have "\<not> (\<exists>t. call_model (Responds r2) = Inr t)"
  proof
    assume "\<exists>t. call_model (Responds r2) = Inr t"
    then obtain t where "call_model (Responds r2) = Inr t" by blast
    from call_model_Inr [OF this] a show False by auto
  qed
  then obtain e where e: "call_model (Responds r2) = Inl e"
    by (cases "call_model (Responds r2)") auto
  from call_model_ok_not_http [OF okr e] have nh: "\<And>resp. e \<noteq> HTTPError resp" by blast
  from handle_failure_other [OF nh] e nh
  show "\<exists>e. call_model (Responds r2) = Inl e \<and> (\<forall>resp. e \<noteq> HTTPError resp)
         \<and> handle_failure e attempt st
             = backoff_or_break attempt (st\<lparr>last_error := Some e\<rparr>)" by blast
next
  assume a: "fst (orchestrate srv models) = Inr text3"
  obtain c st' where run: "for_models srv models initial = (c, st')"
    by (cases "for_models srv models initial")
  note res = orchestrate_result [OF run]
  from a res(2) [of text3] have c: "c = Return text3" by blast
  with run have "models \<noteq> []" by auto
  from for_models_run [OF run initial_all_failed this] c
  obtain h m k where hk: "trace st' = h @ [Post m k]" "call_model (srv h m) = Inr text3"
    by (auto simp: verdict_def)
  from call_model_Inr [OF hk(2)] obtain r' result s where
    f: "srv h m = Responds r'" "json_body r' = Some result"
       "content_field result = Some (JStr s)" "text3 = strip s" "text3 \<noteq> []" by auto
  from f(5) show "text3 \<noteq> []" .
  from text_trimmed [OF f(4,5)] show "\<not> isspace (hd text3)" "\<not> isspace (last text3)"
    by simp_all
  from hk(1) res(1) f
  show "\<exists>h m k r' result s. trace (snd (orchestrate srv models)) = h @ [Post m k]
            \<and> srv h m = Responds r' \<and> json_body r' = Some result
            \<and> content_field result = Some (JStr s) \<and> text3 = strip s" by auto
qed

theorem empty_text_never_returned_witness:
  "call_model (Responds \<lparr>status_code = 200, json_body = Some (JObj [(''choices'',
       JArr [JObj [(''message'', JObj [(''content'', JStr '' hi '')])]])])\<rparr>) = Inr ''hi''
   \<and> ''hi'' \<noteq> []
   \<and> (200::int) \<le> 200 \<and> (200::int) < 300
   \<and> \<not> (\<exists>s. content_field (JObj [(''choices'',
         JArr [JObj [(''message'', JObj [(''content'', JStr ''  '')])]])]) = Some (JStr s)
           \<and> strip s \<noteq> [])
   \<and> (\<exists>e. call_model (Responds \<lparr>status_code = 200, json_body = Some (JObj [(''choices'',
         JArr [JObj [(''message'', JObj [(''content'', JStr ''  '')])]])])\<rparr>) = Inl e
         \<and> (\<forall>resp. e \<noteq> HTTPError resp))
   \<and> fst (orchestrate (\<lambda>h m. Responds \<lparr>status_code = 200, json_body = Some (JObj
         [(''choices'', JArr [JObj [(''message'', JObj [(''content'', JStr '' hi '')])]])])\<rparr>)
         [''m1'']) = Inr ''hi''"
proof -
  let ?good = "\<lparr>status_code = 200, json_body = Some (JObj [(''choices'',
       JArr [JObj [(''message'', JObj [(''content'', JStr '' hi '')])]])])\<rparr>"
  let ?blank = "JObj [(''choices'',
       JArr [JObj [(''message'', JObj [(''content'', JStr ''  '')])]])]"
  let ?bad = "\<lparr>status_code = 200, json_body = Some ?blank\<rparr>"
  have h1: "call_model (Responds ?good) = Inr ''hi''"
    by (simp add: run_defs)
  have h2: "200 \<le> status_code ?bad \<and> status_code ?bad < 300 \<and> json_body ?bad = Some ?blank
      \<and> \<not> (\<exists>s. content_field ?blank = Some (JStr s) \<and> strip s \<noteq> [])"
    by (simp add: run_defs)
  have h3: "fst (orchestrate (\<lambda>h m. Responds ?good) [''m1'']) = Inr ''hi''"
    by (simp add: run_defs)
  note claim = empty_text_never_returned
    [of ?good "''hi''" ?bad ?blank 0 initial "\<lambda>h m. Responds ?good" "[''m1'']" "''hi''"]
  from claim h1 have "''hi'' \<noteq> []" by blast
  moreover from claim h2 have "\<exists>e. call_model (Responds ?bad) = Inl e
      \<and> (\<forall>resp. e \<noteq> HTTPError resp)" by blast
  ultimately show ?thesis using h1 h2 h3 by simp
qed

text \<open>
  C8, as stated: every 2xx response whose body contains an \<open>error\<close> field is a failure.
  The code tests the truth value of the field: a body with \<open>"error": null\<close> and a
  completion is a success.
\<close>

theorem falsy_error_field_is_success:
  "call_model (Responds \<lparr>status_code = 200, json_body = Some (JObj
      [(''error'', JNull),
       (''choices'', JArr [JObj [(''message'', JObj [(''content'', JStr ''ok'')])]])])\<rparr>)
     = Inr ''ok''"
  by (simp add: run_defs)

text \<open>
  C8, amended. For every 2xx response whose body is a \<open>dict\<close> with an \<open>error\<close> field that
  is true (not \<open>null\<close>, \<open>false\<close>, zero or empty), the call fails with a \<open>RuntimeError\<close>
  that carries the field, it is never a success, and the handler treats the failure as
  transient, by \<open>backoff_or_break\<close>.
\<close>

theorem truthy_error_field_is_failure:
  "200 \<le> status_code r \<and> status_code r < 300 \<and> json_body r = Some (JObj d)
    \<and> truthy (dict_get d ''error'') \<longrightarrow>
     call_model (Responds r) = Inl (RuntimeError (dict_get d ''error''))
     \<and> (\<forall>text. call_model (Responds r) \<noteq> Inr text)
     \<and> handle_failure (RuntimeError (dict_get d ''error'')) attempt st
         = backoff_or_break attempt
             (st\<lparr>last_error := Some (RuntimeError (dict_get d ''error''))\<rparr>)"
  by (simp add: call_model_ok ok_2xx extract_text_def handle_failure_def)

theorem truthy_error_field_is_failure_witness:
  "(200::int) \<le> 200 \<and> (200::int) < 300
   \<and> truthy (dict_get [(''error'', JStr ''boom'')] ''error'')
   \<and> call_model (Responds \<lparr>status_code = 200,
         json_body = Some (JObj [(''error'', JStr ''boom'')])\<rparr>)
       = Inl (RuntimeError (dict_get [(''error'', JStr ''boom'')] ''error''))"
proof -
  let ?r = "\<lparr>status_code = 200, json_body = Some (JObj [(''error'', JStr ''boom'')])\<rparr>"
  have h: "200 \<le> status_code ?r \<and> status_code ?r < 300
      \<and> json_body ?r = Some (JObj [(''error'', JStr ''boom'')])
      \<and> truthy (dict_get [(''error'', JStr ''boom'')] ''error'')"
    by (simp add: dict_get_def)
  from truthy_error_field_is_failure [of ?r "[(''error'', JStr ''boom'')]" 0 initial] h
  have "call_model (Responds ?r)
      = Inl (RuntimeError (dict_get [(''error'', JStr ''boom'')] ''error''))"
    by blast
  with h show ?thesis by simp
qed




end
